theory Spec2Isabelle
  imports Main "HOL-Library.Sublist"
begin

section \<open>Python values, exceptions and list access\<close>

text \<open>
  The notebooks are plain Python over lists, strings and unbounded integers. An
  exception is a value of type \<open>error\<close>; a computation that may raise returns
  \<open>error + 'a\<close> with \<open>Inl\<close> for the exception. Python integers are \<open>int\<close>.
\<close>

datatype error = IndexError | NameError string

definition bindE :: "error + 'a \<Rightarrow> ('a \<Rightarrow> error + 'b) \<Rightarrow> error + 'b" where
  "bindE r f = (case r of Inl e \<Rightarrow> Inl e | Inr v \<Rightarrow> f v)"

text \<open>
  Subscripting a list or a string of length \<open>n\<close> with \<open>i\<close>: indices \<open>0 .. n-1\<close> are
  taken as they are, indices \<open>-n .. -1\<close> count from the end, anything else raises
  IndexError.
\<close>

definition py_index :: "nat \<Rightarrow> int \<Rightarrow> error + nat" where
  "py_index n i =
     (if 0 \<le> i \<and> i < int n then Inr (nat i)
      else if - int n \<le> i \<and> i < 0 then Inr (nat (i + int n))
      else Inl IndexError)"

definition getitem :: "'a list \<Rightarrow> int \<Rightarrow> error + 'a" where
  "getitem xs i = bindE (py_index (length xs) i) (\<lambda>k. Inr (xs ! k))"

definition setitem :: "'a list \<Rightarrow> int \<Rightarrow> 'a \<Rightarrow> error + 'a list" where
  "setitem xs i v = bindE (py_index (length xs) i) (\<lambda>k. Inr (xs[k := v]))"

text \<open>
  \<open>D[i][j]\<close> and \<open>D[i][j] = v\<close> on a list of rows. Every table of the notebooks is
  built by a nested list comprehension, so its rows are distinct objects and writing
  one row leaves the others alone: the write is a nested functional update.
\<close>

definition getitem2 :: "'a list list \<Rightarrow> int \<Rightarrow> int \<Rightarrow> error + 'a" where
  "getitem2 D i j = bindE (getitem D i) (\<lambda>row. getitem row j)"

definition setitem2 :: "'a list list \<Rightarrow> int \<Rightarrow> int \<Rightarrow> 'a \<Rightarrow> error + 'a list list" where
  "setitem2 D i j v =
     bindE (getitem D i) (\<lambda>row. bindE (setitem row j v) (\<lambda>row'. setitem D i row'))"

definition getitem3 :: "'a list list list \<Rightarrow> int \<Rightarrow> int \<Rightarrow> int \<Rightarrow> error + 'a" where
  "getitem3 D i j k = bindE (getitem D i) (\<lambda>plane. getitem2 plane j k)"

definition setitem3 ::
  "'a list list list \<Rightarrow> int \<Rightarrow> int \<Rightarrow> int \<Rightarrow> 'a \<Rightarrow> error + 'a list list list" where
  "setitem3 D i j k v =
     bindE (getitem D i) (\<lambda>plane. bindE (setitem2 plane j k v) (\<lambda>plane'. setitem D i plane'))"

text \<open>
  \<open>for x in xs: body\<close> with the table as the state threaded through the body; an
  exception in the body ends the loop. \<open>range(n)\<close> is \<open>[0..<n]\<close>.
\<close>

fun for_loop :: "'x list \<Rightarrow> ('x \<Rightarrow> 's \<Rightarrow> error + 's) \<Rightarrow> 's \<Rightarrow> error + 's" where
  "for_loop [] body s = Inr s"
| "for_loop (x # xs) body s = bindE (body x s) (for_loop xs body)"

text \<open>Python's \<open>max(a, b, c)\<close> on integers.\<close>

definition max3 :: "int \<Rightarrow> int \<Rightarrow> int \<Rightarrow> int" where
  "max3 a b c = max (max a b) c"

section \<open>The Needleman-Wunsch global alignment score\<close>

text \<open>
  \<open>_alignment_score_init(m, n, sigma)\<close> (the leading underscore of a Python name is
  dropped throughout). \<open>m\<close> and \<open>n\<close> are the lengths \<open>len(s1)\<close> and \<open>len(s2)\<close>.
\<close>

definition alignment_score_init :: "nat \<Rightarrow> nat \<Rightarrow> int \<Rightarrow> error + int list list" where
  "alignment_score_init m n sigma =
     (let D = replicate (m + 1) (replicate (n + 1) (0::int)) in
      bindE (for_loop [0..<m + 1] (\<lambda>i D. setitem2 D (int i) 0 (sigma * int i)) D) (\<lambda>D.
      bindE (for_loop [0..<n + 1] (\<lambda>j D. setitem2 D 0 (int j) (sigma * int j)) D) (\<lambda>D.
      Inr D)))"

text \<open>\<open>_alignment_score_step(D, i, j, s1, s2, mu, sigma)\<close>; it returns the updated table.\<close>

definition alignment_score_step ::
  "int list list \<Rightarrow> int \<Rightarrow> int \<Rightarrow> 'a list \<Rightarrow> 'a list \<Rightarrow> int \<Rightarrow> int \<Rightarrow> error + int list list" where
  "alignment_score_step D i j s1 s2 mu sigma =
     bindE (getitem s1 (i - 1)) (\<lambda>c1.
     bindE (getitem s2 (j - 1)) (\<lambda>c2.
     bindE (getitem2 D i (j - 1)) (\<lambda>x. let insertion = x + sigma in
     bindE (getitem2 D (i - 1) j) (\<lambda>y. let deletion = y + sigma in
     bindE (getitem2 D (i - 1) (j - 1)) (\<lambda>z. let match = z + 1 in
     bindE (getitem2 D (i - 1) (j - 1)) (\<lambda>z'. let mismatch = z' + mu in
     if c1 = c2 then setitem2 D i j (max3 insertion deletion match)
     else setitem2 D i j (max3 insertion deletion mismatch)))))))"

text \<open>
  The body of \<open>needleman_wunsch_algorithm\<close> up to its \<open>return\<close>: the table \<open>D\<close> after
  the initialisation and the two nested loops.
\<close>

definition needleman_wunsch_table ::
  "'a list \<Rightarrow> 'a list \<Rightarrow> int \<Rightarrow> int \<Rightarrow> error + int list list" where
  "needleman_wunsch_table s1 s2 mu sigma =
     (let m = length s1; n = length s2 in
      bindE (alignment_score_init m n sigma) (\<lambda>D.
      for_loop [0..<m] (\<lambda>i.
        for_loop [0..<n] (\<lambda>j D.
          alignment_score_step D (int i + 1) (int j + 1) s1 s2 mu sigma)) D))"

text \<open>\<open>needleman_wunsch_algorithm(s1, s2, mu, sigma)\<close>: build the table, \<open>return D[m][n]\<close>.\<close>

definition needleman_wunsch_algorithm :: "'a list \<Rightarrow> 'a list \<Rightarrow> int \<Rightarrow> int \<Rightarrow> error + int" where
  "needleman_wunsch_algorithm s1 s2 mu sigma =
     bindE (needleman_wunsch_table s1 s2 mu sigma) (\<lambda>D.
     getitem2 D (int (length s1)) (int (length s2)))"

section \<open>The longest common subsequence of three sequences\<close>

text \<open>
  The body of the innermost loop of \<open>longest_common_subsequence\<close> at \<open>(i, j, k)\<close>. The
  condition \<open>s1[i] == s2[j] and s2[j] == s3[k]\<close> short-circuits: the second comparison
  is evaluated only when the first holds.
\<close>

definition lcs_cell ::
  "int list list list \<Rightarrow> nat \<Rightarrow> nat \<Rightarrow> nat \<Rightarrow> 'a list \<Rightarrow> 'a list \<Rightarrow> 'a list \<Rightarrow>
   error + int list list list" where
  "lcs_cell D i j k s1 s2 s3 =
     bindE (getitem s1 (int i)) (\<lambda>a.
     bindE (getitem s2 (int j)) (\<lambda>b.
     bindE (if a = b
            then bindE (getitem s2 (int j)) (\<lambda>b'. bindE (getitem s3 (int k)) (\<lambda>c. Inr (b' = c)))
            else Inr False) (\<lambda>all_equal.
     if all_equal
     then bindE (getitem3 D (int i) (int j) (int k)) (\<lambda>v.
          setitem3 D (int i + 1) (int j + 1) (int k + 1) (v + 1))
     else bindE (getitem3 D (int i + 1) (int j + 1) (int k)) (\<lambda>x.
          bindE (getitem3 D (int i + 1) (int j) (int k + 1)) (\<lambda>y.
          bindE (getitem3 D (int i) (int j + 1) (int k + 1)) (\<lambda>z.
          setitem3 D (int i + 1) (int j + 1) (int k + 1) (max3 x y z)))))))"

text \<open>The table \<open>D\<close> of \<open>longest_common_subsequence\<close> after its three nested loops.\<close>

definition longest_common_subsequence_table ::
  "'a list \<Rightarrow> 'a list \<Rightarrow> 'a list \<Rightarrow> error + int list list list" where
  "longest_common_subsequence_table s1 s2 s3 =
     (let m = length s1; n = length s2; p = length s3;
          D = replicate (m + 1) (replicate (n + 1) (replicate (p + 1) (0::int))) in
      for_loop [0..<m] (\<lambda>i.
        for_loop [0..<n] (\<lambda>j.
          for_loop [0..<p] (\<lambda>k D. lcs_cell D i j k s1 s2 s3))) D)"

text \<open>\<open>longest_common_subsequence(s1, s2, s3)\<close>: build the table, \<open>return D[m][n][p]\<close>.\<close>

definition longest_common_subsequence :: "'a list \<Rightarrow> 'a list \<Rightarrow> 'a list \<Rightarrow> error + int" where
  "longest_common_subsequence s1 s2 s3 =
     bindE (longest_common_subsequence_table s1 s2 s3) (\<lambda>D.
     getitem3 D (int (length s1)) (int (length s2)) (int (length s3)))"

section \<open>Majority elements\<close>

text \<open>\<open>is_majority_element(element, a)\<close>: \<open>a.count(element) > len(a) // 2\<close>.\<close>

definition is_majority_element :: "int \<Rightarrow> int list \<Rightarrow> bool" where
  "is_majority_element element a \<longleftrightarrow> count_list a element > length a div 2"

text \<open>
  \<open>naive_algorithm(a)\<close>: the loop over the elements returns the first one that is a
  majority element; when the loop runs out the function returns \<open>-1\<close>.
\<close>

fun naive_loop :: "int list \<Rightarrow> int list \<Rightarrow> int" where
  "naive_loop [] a = - 1"
| "naive_loop (element # rest) a =
     (if is_majority_element element a then element else naive_loop rest a)"

definition naive_algorithm :: "int list \<Rightarrow> int" where
  "naive_algorithm a = naive_loop a a"

text \<open>
  \<open>_candidate_majority_element(a)\<close>: \<open>candidate, count = a[0], 1\<close> raises IndexError on
  the empty list; the loop then runs over all of \<open>a\<close>, its first element included.
\<close>

fun candidate_loop :: "int list \<Rightarrow> int \<Rightarrow> int \<Rightarrow> int" where
  "candidate_loop [] candidate count = candidate"
| "candidate_loop (element # rest) candidate count =
     (let count = (if candidate = element then count + 1 else count - 1) in
      if count = 0 then candidate_loop rest element 1
      else candidate_loop rest candidate count)"

definition candidate_majority_element :: "int list \<Rightarrow> error + int" where
  "candidate_majority_element a =
     bindE (getitem a 0) (\<lambda>a0. Inr (candidate_loop a a0 1))"

definition boyer_moore_algorithm :: "int list \<Rightarrow> error + int" where
  "boyer_moore_algorithm a =
     (if length a = 0 then Inr (- 1)
      else bindE (candidate_majority_element a) (\<lambda>candidate_element.
           if is_majority_element candidate_element a then Inr candidate_element
           else Inr (- 1)))"

text \<open>
  The divide-and-conquer cell defines \<open>_divide_and_conquer\<close> and
  \<open>divide_and_conquer_algorithm\<close>; both call \<open>_get_majority_element\<close>, a name that no
  cell of the notebook binds. Python resolves a global name when the call is evaluated,
  and an unbound name raises NameError there.
\<close>

definition get_majority_element :: "int list \<Rightarrow> int \<Rightarrow> int \<Rightarrow> error + int" where
  "get_majority_element a left right = Inl (NameError ''_get_majority_element'')"

text \<open>The slice \<open>xs[lo:hi]\<close>: negative bounds count from the end, bounds are clipped.\<close>

definition py_slice :: "'a list \<Rightarrow> int \<Rightarrow> int \<Rightarrow> 'a list" where
  "py_slice xs lo hi =
     (let n = int (length xs);
          clip = (\<lambda>i. max 0 (min n (if i < 0 then i + n else i)));
          l = clip lo; h = clip hi
      in take (nat (h - l)) (drop (nat l) xs))"

definition divide_and_conquer :: "int list \<Rightarrow> int \<Rightarrow> int \<Rightarrow> error + int" where
  "divide_and_conquer a left right =
     (if left = right then Inr (- 1)
      else if left + 1 = right then getitem a left
      else
        let m = left + (right - left) div 2 in
        bindE (get_majority_element a left m) (\<lambda>left_element.
        bindE (get_majority_element a m right) (\<lambda>right_element.
        let b = py_slice a left right in
        if left_element = - 1 \<and> right_element \<noteq> - 1 then
          Inr (if count_list b right_element > length b div 2 then right_element else - 1)
        else if left_element \<noteq> - 1 \<and> right_element = - 1 then
          Inr (if count_list b left_element > length b div 2 then left_element else - 1)
        else if left_element \<noteq> - 1 \<and> right_element \<noteq> - 1 then
          (if count_list b left_element > length b div 2 then Inr left_element
           else if count_list b right_element > length b div 2 then Inr right_element
           else Inr (- 1))
        else Inr (- 1))))"

definition divide_and_conquer_algorithm :: "int list \<Rightarrow> error + int" where
  "divide_and_conquer_algorithm a = get_majority_element a 0 (int (length a))"

section \<open>The specification's tables and reference definitions\<close>

text \<open>
  The table of the specification for the pairwise routine, as a recurrence on the
  prefix lengths: \<open>Table[i][0] = gapPenalty * i\<close>, \<open>Table[0][j] = gapPenalty * j\<close>, and
  the maximum of insertion, deletion and match-or-mismatch elsewhere.
\<close>

fun spec_table :: "'a list \<Rightarrow> 'a list \<Rightarrow> int \<Rightarrow> int \<Rightarrow> nat \<Rightarrow> nat \<Rightarrow> int" where
  "spec_table s1 s2 mu sigma i 0 = sigma * int i"
| "spec_table s1 s2 mu sigma 0 j = sigma * int j"
| "spec_table s1 s2 mu sigma (Suc i) (Suc j) =
     max3 (spec_table s1 s2 mu sigma (Suc i) j + sigma)
          (spec_table s1 s2 mu sigma i (Suc j) + sigma)
          (if s1 ! i = s2 ! j then spec_table s1 s2 mu sigma i j + 1
           else spec_table s1 s2 mu sigma i j + mu)"

text \<open>
  The table of the specification for the three-way routine: zero on the boundary
  planes, the diagonal neighbour plus one where the three symbols agree, the maximum of
  the three neighbours with one index decremented elsewhere.
\<close>

fun spec_table3 :: "'a list \<Rightarrow> 'a list \<Rightarrow> 'a list \<Rightarrow> nat \<Rightarrow> nat \<Rightarrow> nat \<Rightarrow> int" where
  "spec_table3 s1 s2 s3 0 j k = 0"
| "spec_table3 s1 s2 s3 i 0 k = 0"
| "spec_table3 s1 s2 s3 i j 0 = 0"
| "spec_table3 s1 s2 s3 (Suc i) (Suc j) (Suc k) =
     (if s1 ! i = s2 ! j \<and> s2 ! j = s3 ! k then spec_table3 s1 s2 s3 i j k + 1
      else max3 (spec_table3 s1 s2 s3 (Suc i) (Suc j) k)
                (spec_table3 s1 s2 s3 (Suc i) j (Suc k))
                (spec_table3 s1 s2 s3 i (Suc j) (Suc k)))"

text \<open>
  The reference definition of the length of a longest common subsequence, by
  enumeration: the subsequences of \<open>s1\<close> that are also subsequences of \<open>s2\<close>, and the
  greatest of their lengths. It shares nothing with the table.
\<close>

definition common_subsequences :: "'a list \<Rightarrow> 'a list \<Rightarrow> 'a list list" where
  "common_subsequences s1 s2 = filter (\<lambda>w. subseq w s2) (subseqs s1)"

definition spec_lcs_length :: "'a list \<Rightarrow> 'a list \<Rightarrow> nat" where
  "spec_lcs_length s1 s2 = Max (set (map length (common_subsequences s1 s2)))"

section \<open>Shapes of tables and loop invariants\<close>

definition table_shape :: "nat \<Rightarrow> nat \<Rightarrow> 'a list list \<Rightarrow> bool" where
  "table_shape m n D \<longleftrightarrow> length D = Suc m \<and> (\<forall>i \<le> m. length (D ! i) = Suc n)"

definition cube_shape :: "nat \<Rightarrow> nat \<Rightarrow> nat \<Rightarrow> 'a list list list \<Rightarrow> bool" where
  "cube_shape m n p D \<longleftrightarrow> length D = Suc m \<and> (\<forall>i \<le> m. table_shape n p (D ! i))"

text \<open>
  The invariant of the pairwise loops: rows \<open>0 .. i\<close>, column \<open>0\<close> and the first \<open>j\<close>
  cells of row \<open>i + 1\<close> hold the values of the specification's table.
\<close>

definition nw_filled ::
  "'a list \<Rightarrow> 'a list \<Rightarrow> int \<Rightarrow> int \<Rightarrow> nat \<Rightarrow> nat \<Rightarrow> int list list \<Rightarrow> bool" where
  "nw_filled s1 s2 mu sigma i j D \<longleftrightarrow>
     table_shape (length s1) (length s2) D \<and>
     (\<forall>a b. a \<le> length s1 \<longrightarrow> b \<le> length s2 \<longrightarrow> (a \<le> i \<or> b = 0 \<or> (a = Suc i \<and> b \<le> j)) \<longrightarrow>
        D ! a ! b = spec_table s1 s2 mu sigma a b)"

text \<open>The invariant of the three-way loops, in the order the cells are written.\<close>

definition lcs_filled ::
  "'a list \<Rightarrow> 'a list \<Rightarrow> 'a list \<Rightarrow> nat \<Rightarrow> nat \<Rightarrow> nat \<Rightarrow> int list list list \<Rightarrow> bool" where
  "lcs_filled s1 s2 s3 i j k D \<longleftrightarrow>
     cube_shape (length s1) (length s2) (length s3) D \<and>
     (\<forall>a b c. a \<le> length s1 \<longrightarrow> b \<le> length s2 \<longrightarrow> c \<le> length s3 \<longrightarrow>
        (b = 0 \<or> c = 0 \<or> a \<le> i \<or> (a = Suc i \<and> (b \<le> j \<or> (b = Suc j \<and> c \<le> k)))) \<longrightarrow>
        D ! a ! b ! c = spec_table3 s1 s2 s3 a b c)"

section \<open>Basic facts about the Python operations\<close>

lemma bindE_Inr [simp]: "bindE (Inr v) f = f v"
  by (simp add: bindE_def)

lemma bindE_Inl [simp]: "bindE (Inl e) f = Inl e"
  by (simp add: bindE_def)

lemma py_index_nat: "i < n \<Longrightarrow> py_index n (int i) = Inr i"
  by (simp add: py_index_def)

lemma getitem_nat: "i < length xs \<Longrightarrow> getitem xs (int i) = Inr (xs ! i)"
  by (simp add: getitem_def py_index_nat)

lemma setitem_nat: "i < length xs \<Longrightarrow> setitem xs (int i) v = Inr (xs[i := v])"
  by (simp add: setitem_def py_index_nat)

lemma getitem2_nat:
  "i < length D \<Longrightarrow> j < length (D ! i) \<Longrightarrow> getitem2 D (int i) (int j) = Inr (D ! i ! j)"
  by (simp add: getitem2_def getitem_nat)

lemma setitem2_nat:
  "i < length D \<Longrightarrow> j < length (D ! i) \<Longrightarrow>
   setitem2 D (int i) (int j) v = Inr (D[i := (D ! i)[j := v]])"
  by (simp add: setitem2_def getitem_nat setitem_nat)

lemma for_loop_append:
  "for_loop (xs @ ys) body s = bindE (for_loop xs body s) (for_loop ys body)"
  by (induction xs arbitrary: s) (auto simp: bindE_def split: sum.splits)

lemma for_loop_range_invariant:
  assumes "P 0 s"
    and "\<And>k t. k < n \<Longrightarrow> P k t \<Longrightarrow> \<exists>t'. body k t = Inr t' \<and> P (Suc k) t'"
  shows "\<exists>s'. for_loop [0..<n] body s = Inr s' \<and> P n s'"
  using assms(2)
proof (induction n)
  case 0
  with assms(1) show ?case by simp
next
  case (Suc n)
  then obtain s' where s': "for_loop [0..<n] body s = Inr s'" "P n s'"
    by (metis less_Suc_eq)
  from Suc.prems[of n s'] s'(2) obtain t' where "body n s' = Inr t'" "P (Suc n) t'"
    by auto
  with s' show ?case
    by (simp add: for_loop_append)
qed

section \<open>Tables of a given shape\<close>

lemma nth_list_update_if: "xs[i := x] ! j = (if i = j \<and> i < length xs then x else xs ! j)"
  by (cases "i < length xs") (simp_all add: nth_list_update list_update_beyond)

lemma table_shape_replicate: "table_shape m n (replicate (Suc m) (replicate (Suc n) v))"
  by (simp add: table_shape_def del: replicate.simps)

lemma table_shape_update:
  "table_shape m n D \<Longrightarrow> table_shape m n (D[i := (D ! i)[j := v]])"
  by (simp add: table_shape_def nth_list_update_if)

lemma table_update_nth:
  "table_shape m n D \<Longrightarrow> i \<le> m \<Longrightarrow> j \<le> n \<Longrightarrow>
   D[i := (D ! i)[j := v]] ! a ! b = (if a = i \<and> b = j then v else D ! a ! b)"
  by (simp add: table_shape_def nth_list_update_if)

lemma setitem2_table:
  "table_shape m n D \<Longrightarrow> i \<le> m \<Longrightarrow> j \<le> n \<Longrightarrow>
   setitem2 D (int i) (int j) v = Inr (D[i := (D ! i)[j := v]])"
  by (simp add: setitem2_nat table_shape_def)

lemma getitem2_table:
  "table_shape m n D \<Longrightarrow> i \<le> m \<Longrightarrow> j \<le> n \<Longrightarrow> getitem2 D (int i) (int j) = Inr (D ! i ! j)"
  by (simp add: getitem2_nat table_shape_def)

lemma alignment_score_step_table:
  assumes sh: "table_shape m n D" and i: "i < m" and j: "j < n"
    and l1: "i < length s1" and l2: "j < length s2"
  shows "alignment_score_step D (int i + 1) (int j + 1) s1 s2 mu sigma =
         Inr (D[Suc i := (D ! Suc i)[Suc j :=
           max3 (D ! Suc i ! j + sigma) (D ! i ! Suc j + sigma)
                (if s1 ! i = s2 ! j then D ! i ! j + 1 else D ! i ! j + mu)]])"
proof -
  have e: "int i + 1 = int (Suc i)" "int j + 1 = int (Suc j)"
    by simp_all
  have g: "getitem2 D (int (Suc i)) (int j) = Inr (D ! Suc i ! j)"
    "getitem2 D (int i) (int (Suc j)) = Inr (D ! i ! Suc j)"
    "getitem2 D (int i) (int j) = Inr (D ! i ! j)"
    using sh i j by (simp_all only: getitem2_table Suc_leI less_imp_le)
  have s: "setitem2 D (int (Suc i)) (int (Suc j)) v = Inr (D[Suc i := (D ! Suc i)[Suc j := v]])" for v
    using sh i j by (simp only: setitem2_table Suc_leI)
  have c: "getitem s1 (int i) = Inr (s1 ! i)" "getitem s2 (int j) = Inr (s2 ! j)"
    using l1 l2 by (simp_all only: getitem_nat)
  have d: "int (Suc i) - 1 = int i" "int (Suc j) - 1 = int j"
    by simp_all
  show ?thesis
    unfolding alignment_score_step_def e d g c s bindE_Inr Let_def
    by simp
qed

section \<open>The pairwise table holds the specification's recurrence\<close>

lemma alignment_score_init_table:
  "\<exists>D. alignment_score_init m n sigma = Inr D \<and> table_shape m n D \<and>
       (\<forall>i \<le> m. D ! i ! 0 = sigma * int i) \<and> (\<forall>j \<le> n. D ! 0 ! j = sigma * int j)"
proof -
  let ?D0 = "replicate (Suc m) (replicate (Suc n) (0::int))"
  let ?P = "\<lambda>k D. table_shape m n D \<and> (\<forall>i < k. D ! i ! 0 = sigma * int i)"
  let ?Q = "\<lambda>k D. table_shape m n D \<and> (\<forall>i \<le> m. D ! i ! 0 = sigma * int i) \<and>
                  (\<forall>j < k. D ! 0 ! j = sigma * int j)"
  have "\<exists>D. for_loop [0..<Suc m] (\<lambda>i D. setitem2 D (int i) 0 (sigma * int i)) ?D0 = Inr D \<and>
            ?P (Suc m) D"
  proof (rule for_loop_range_invariant)
    show "?P 0 ?D0"
      by (simp add: table_shape_replicate del: replicate.simps)
  next
    fix k D
    assume k: "k < Suc m" and P: "?P k D"
    then have "setitem2 D (int k) (int 0) (sigma * int k) = Inr (D[k := (D ! k)[0 := sigma * int k]])"
      by (intro setitem2_table[of m n]) simp_all
    moreover have "?P (Suc k) (D[k := (D ! k)[0 := sigma * int k]])"
    proof -
      from k have km: "k \<le> m" by simp
      from P have sh: "table_shape m n D" by simp
      note upd = table_update_nth[OF sh km le0]
      show ?thesis
        using P by (simp add: table_shape_update upd less_Suc_eq)
    qed
    ultimately show "\<exists>D'. setitem2 D (int k) 0 (sigma * int k) = Inr D' \<and> ?P (Suc k) D'"
      by simp
  qed
  then obtain D1 where D1: "for_loop [0..<Suc m] (\<lambda>i D. setitem2 D (int i) 0 (sigma * int i)) ?D0 = Inr D1"
    "?P (Suc m) D1"
    by blast
  have "\<exists>D. for_loop [0..<Suc n] (\<lambda>j D. setitem2 D 0 (int j) (sigma * int j)) D1 = Inr D \<and>
            ?Q (Suc n) D"
  proof (rule for_loop_range_invariant)
    show "?Q 0 D1"
      using D1(2) by (simp add: less_Suc_eq_le)
  next
    fix k D
    assume k: "k < Suc n" and Q: "?Q k D"
    then have "setitem2 D (int 0) (int k) (sigma * int k) = Inr (D[0 := (D ! 0)[k := sigma * int k]])"
      by (intro setitem2_table[of m n]) simp_all
    moreover have "?Q (Suc k) (D[0 := (D ! 0)[k := sigma * int k]])"
    proof -
      from k have kn: "k \<le> n" by simp
      from Q have sh: "table_shape m n D" by simp
      note upd = table_update_nth[OF sh le0 kn]
      show ?thesis
        using Q by (auto simp: table_shape_update upd less_Suc_eq)
    qed
    ultimately show "\<exists>D'. setitem2 D 0 (int k) (sigma * int k) = Inr D' \<and> ?Q (Suc k) D'"
      by simp
  qed
  then obtain D2 where D2: "for_loop [0..<Suc n] (\<lambda>j D. setitem2 D 0 (int j) (sigma * int j)) D1 = Inr D2"
    "?Q (Suc n) D2"
    by blast
  have "alignment_score_init m n sigma = Inr D2"
    using D1(1) D2(1) by (simp add: alignment_score_init_def del: replicate.simps upt_Suc)
  with D2(2) show ?thesis
    by (simp add: less_Suc_eq_le)
qed

lemma nw_filled_cell:
  "nw_filled s1 s2 mu sigma i j D \<Longrightarrow> a \<le> length s1 \<Longrightarrow> b \<le> length s2 \<Longrightarrow>
   a \<le> i \<or> b = 0 \<or> (a = Suc i \<and> b \<le> j) \<Longrightarrow> D ! a ! b = spec_table s1 s2 mu sigma a b"
  unfolding nw_filled_def by blast

lemma nw_filled_step:
  assumes inv: "nw_filled s1 s2 mu sigma i j D" and i: "i < length s1" and j: "j < length s2"
  shows "\<exists>D'. alignment_score_step D (int i + 1) (int j + 1) s1 s2 mu sigma = Inr D' \<and>
              nw_filled s1 s2 mu sigma i (Suc j) D'"
proof -
  let ?T = "spec_table s1 s2 mu sigma"
  from inv have sh: "table_shape (length s1) (length s2) D"
    by (simp add: nw_filled_def)
  have c1: "D ! Suc i ! j = ?T (Suc i) j"
    using i j by (intro nw_filled_cell[OF inv]) simp_all
  have c2: "D ! i ! Suc j = ?T i (Suc j)"
    using i j by (intro nw_filled_cell[OF inv]) simp_all
  have c3: "D ! i ! j = ?T i j"
    using i j by (intro nw_filled_cell[OF inv]) simp_all
  let ?D' = "D[Suc i := (D ! Suc i)[Suc j := ?T (Suc i) (Suc j)]]"
  have run: "alignment_score_step D (int i + 1) (int j + 1) s1 s2 mu sigma = Inr ?D'"
    by (simp only: alignment_score_step_table[OF sh i j i j] c1 c2 c3 spec_table.simps)
  have sh': "table_shape (length s1) (length s2) ?D'"
    using sh by (rule table_shape_update)
  from i j have le: "Suc i \<le> length s1" "Suc j \<le> length s2"
    by simp_all
  note upd = table_update_nth[OF sh le]
  have "?D' ! a ! b = ?T a b"
    if "a \<le> length s1" "b \<le> length s2" "a \<le> i \<or> b = 0 \<or> (a = Suc i \<and> b \<le> Suc j)" for a b
  proof (cases "a = Suc i \<and> b = Suc j")
    case True
    then show ?thesis by (simp add: upd)
  next
    case False
    with that(3) have "a \<le> i \<or> b = 0 \<or> (a = Suc i \<and> b \<le> j)"
      by auto
    from nw_filled_cell[OF inv that(1,2) this] False show ?thesis
      by (simp add: upd)
  qed
  with sh' have "nw_filled s1 s2 mu sigma i (Suc j) ?D'"
    unfolding nw_filled_def by blast
  with run show ?thesis by blast
qed

lemma nw_filled_row:
  assumes inv: "nw_filled s1 s2 mu sigma i 0 D" and i: "i < length s1"
  shows "\<exists>D'. for_loop [0..<length s2]
                (\<lambda>j D. alignment_score_step D (int i + 1) (int j + 1) s1 s2 mu sigma) D = Inr D' \<and>
              nw_filled s1 s2 mu sigma (Suc i) 0 D'"
proof -
  have "\<exists>D'. for_loop [0..<length s2]
                (\<lambda>j D. alignment_score_step D (int i + 1) (int j + 1) s1 s2 mu sigma) D = Inr D' \<and>
              nw_filled s1 s2 mu sigma i (length s2) D'"
    by (rule for_loop_range_invariant[where P = "nw_filled s1 s2 mu sigma i"])
       (use inv i in \<open>simp_all add: nw_filled_step\<close>)
  moreover have "nw_filled s1 s2 mu sigma (Suc i) 0 D'" if "nw_filled s1 s2 mu sigma i (length s2) D'" for D'
    using that unfolding nw_filled_def by (auto simp: le_Suc_eq)
  ultimately show ?thesis by blast
qed

lemma needleman_wunsch_table_cells:
  "\<exists>D. needleman_wunsch_table s1 s2 mu sigma = Inr D \<and>
       table_shape (length s1) (length s2) D \<and>
       (\<forall>i \<le> length s1. \<forall>j \<le> length s2. D ! i ! j = spec_table s1 s2 mu sigma i j)"
proof -
  obtain D0 where D0: "alignment_score_init (length s1) (length s2) sigma = Inr D0"
    "table_shape (length s1) (length s2) D0"
    "\<forall>i \<le> length s1. D0 ! i ! 0 = sigma * int i" "\<forall>j \<le> length s2. D0 ! 0 ! j = sigma * int j"
    using alignment_score_init_table[of "length s1" "length s2" sigma] by blast
  have start: "nw_filled s1 s2 mu sigma 0 0 D0"
    unfolding nw_filled_def
  proof (intro conjI allI impI)
    fix a b
    assume "a \<le> length s1" "b \<le> length s2" "a \<le> 0 \<or> b = 0 \<or> a = Suc 0 \<and> b \<le> 0"
    with D0(3,4) show "D0 ! a ! b = spec_table s1 s2 mu sigma a b"
      by (cases a; cases b) auto
  qed (rule D0(2))
  have "\<exists>D. for_loop [0..<length s1] (\<lambda>i. for_loop [0..<length s2]
                (\<lambda>j D. alignment_score_step D (int i + 1) (int j + 1) s1 s2 mu sigma)) D0 = Inr D \<and>
            nw_filled s1 s2 mu sigma (length s1) 0 D"
    by (rule for_loop_range_invariant[where P = "\<lambda>i. nw_filled s1 s2 mu sigma i 0"])
       (use start in \<open>simp_all add: nw_filled_row\<close>)
  then obtain D where D: "for_loop [0..<length s1] (\<lambda>i. for_loop [0..<length s2]
                (\<lambda>j D. alignment_score_step D (int i + 1) (int j + 1) s1 s2 mu sigma)) D0 = Inr D"
    "nw_filled s1 s2 mu sigma (length s1) 0 D"
    by blast
  have "needleman_wunsch_table s1 s2 mu sigma = Inr D"
    using D0(1) D(1) by (simp add: needleman_wunsch_table_def)
  with D(2) show ?thesis
    unfolding nw_filled_def by auto
qed

lemma needleman_wunsch_algorithm_spec_table:
  "needleman_wunsch_algorithm s1 s2 mu sigma =
   Inr (spec_table s1 s2 mu sigma (length s1) (length s2))"
proof -
  obtain D where D: "needleman_wunsch_table s1 s2 mu sigma = Inr D"
    "table_shape (length s1) (length s2) D"
    "\<forall>i \<le> length s1. \<forall>j \<le> length s2. D ! i ! j = spec_table s1 s2 mu sigma i j"
    using needleman_wunsch_table_cells[of s1 s2 mu sigma] by blast
  show ?thesis
    using D by (simp add: needleman_wunsch_algorithm_def getitem2_table[OF D(2)])
qed

section \<open>The three-way table holds the specification's recurrence\<close>

lemma spec_table3_zero [simp]:
  "spec_table3 s1 s2 s3 i 0 k = 0" "spec_table3 s1 s2 s3 i j 0 = 0"
  by (cases i; simp) (cases i; cases j; simp)

lemma cube_shape_replicate:
  "cube_shape m n p (replicate (Suc m) (replicate (Suc n) (replicate (Suc p) v)))"
  by (simp add: cube_shape_def table_shape_replicate del: replicate.simps)

lemma cube_shape_update:
  "cube_shape m n p D \<Longrightarrow> cube_shape m n p (D[i := (D ! i)[j := (D ! i ! j)[k := v]]])"
  by (simp add: cube_shape_def nth_list_update_if table_shape_update)

lemma cube_update_nth:
  "cube_shape m n p D \<Longrightarrow> i \<le> m \<Longrightarrow> j \<le> n \<Longrightarrow> k \<le> p \<Longrightarrow>
   D[i := (D ! i)[j := (D ! i ! j)[k := v]]] ! a ! b ! c =
   (if a = i \<and> b = j \<and> c = k then v else D ! a ! b ! c)"
proof -
  assume sh: "cube_shape m n p D" and i: "i \<le> m" and j: "j \<le> n" and k: "k \<le> p"
  then have pl: "table_shape n p (D ! i)" and len: "i < length D"
    by (simp_all add: cube_shape_def)
  show ?thesis
  proof (cases "a = i")
    case True
    then show ?thesis
      by (simp only: nth_list_update_eq[OF len] table_update_nth[OF pl j k]) simp
  next
    case False
    then show ?thesis
      by (simp only: nth_list_update_neq[of i a] if_False simp_thms)
  qed
qed

lemma getitem3_cube:
  "cube_shape m n p D \<Longrightarrow> i \<le> m \<Longrightarrow> j \<le> n \<Longrightarrow> k \<le> p \<Longrightarrow>
   getitem3 D (int i) (int j) (int k) = Inr (D ! i ! j ! k)"
  by (simp add: getitem3_def cube_shape_def getitem_nat getitem2_table[of n p])

lemma setitem3_cube:
  "cube_shape m n p D \<Longrightarrow> i \<le> m \<Longrightarrow> j \<le> n \<Longrightarrow> k \<le> p \<Longrightarrow>
   setitem3 D (int i) (int j) (int k) v = Inr (D[i := (D ! i)[j := (D ! i ! j)[k := v]]])"
  by (simp add: setitem3_def cube_shape_def getitem_nat setitem_nat setitem2_table[of n p])

lemma lcs_cell_cube:
  assumes sh: "cube_shape m n p D" and i: "i < m" and j: "j < n" and k: "k < p"
    and l1: "i < length s1" and l2: "j < length s2" and l3: "k < length s3"
  shows "lcs_cell D i j k s1 s2 s3 =
         Inr (D[Suc i := (D ! Suc i)[Suc j := (D ! Suc i ! Suc j)[Suc k :=
           (if s1 ! i = s2 ! j \<and> s2 ! j = s3 ! k then D ! i ! j ! k + 1
            else max3 (D ! Suc i ! Suc j ! k) (D ! Suc i ! j ! Suc k) (D ! i ! Suc j ! Suc k))]]])"
proof -
  have e: "int i + 1 = int (Suc i)" "int j + 1 = int (Suc j)" "int k + 1 = int (Suc k)"
    by simp_all
  have g: "getitem3 D (int i) (int j) (int k) = Inr (D ! i ! j ! k)"
    "getitem3 D (int (Suc i)) (int (Suc j)) (int k) = Inr (D ! Suc i ! Suc j ! k)"
    "getitem3 D (int (Suc i)) (int j) (int (Suc k)) = Inr (D ! Suc i ! j ! Suc k)"
    "getitem3 D (int i) (int (Suc j)) (int (Suc k)) = Inr (D ! i ! Suc j ! Suc k)"
    using sh i j k by (simp_all only: getitem3_cube Suc_leI less_imp_le)
  have s: "setitem3 D (int (Suc i)) (int (Suc j)) (int (Suc k)) v =
           Inr (D[Suc i := (D ! Suc i)[Suc j := (D ! Suc i ! Suc j)[Suc k := v]]])" for v
    using sh i j k by (simp only: setitem3_cube Suc_leI)
  have c: "getitem s1 (int i) = Inr (s1 ! i)" "getitem s2 (int j) = Inr (s2 ! j)"
    "getitem s3 (int k) = Inr (s3 ! k)"
    using l1 l2 l3 by (simp_all only: getitem_nat)
  show ?thesis
    unfolding lcs_cell_def e g c s bindE_Inr
    by simp
qed

lemma lcs_filled_cell:
  "lcs_filled s1 s2 s3 i j k D \<Longrightarrow> a \<le> length s1 \<Longrightarrow> b \<le> length s2 \<Longrightarrow> c \<le> length s3 \<Longrightarrow>
   b = 0 \<or> c = 0 \<or> a \<le> i \<or> (a = Suc i \<and> (b \<le> j \<or> (b = Suc j \<and> c \<le> k))) \<Longrightarrow>
   D ! a ! b ! c = spec_table3 s1 s2 s3 a b c"
  unfolding lcs_filled_def by blast

lemma lcs_filled_mono:
  assumes inv: "lcs_filled s1 s2 s3 i j k D"
    and sub: "\<And>a b c. a \<le> length s1 \<Longrightarrow> b \<le> length s2 \<Longrightarrow> c \<le> length s3 \<Longrightarrow>
       b = 0 \<or> c = 0 \<or> a \<le> i' \<or> (a = Suc i' \<and> (b \<le> j' \<or> (b = Suc j' \<and> c \<le> k'))) \<Longrightarrow>
       b = 0 \<or> c = 0 \<or> a \<le> i \<or> (a = Suc i \<and> (b \<le> j \<or> (b = Suc j \<and> c \<le> k)))"
  shows "lcs_filled s1 s2 s3 i' j' k' D"
  unfolding lcs_filled_def
proof (intro conjI allI impI)
  show "cube_shape (length s1) (length s2) (length s3) D"
    using inv by (simp add: lcs_filled_def)
next
  fix a b c
  assume "a \<le> length s1" "b \<le> length s2" "c \<le> length s3"
    "b = 0 \<or> c = 0 \<or> a \<le> i' \<or> (a = Suc i' \<and> (b \<le> j' \<or> (b = Suc j' \<and> c \<le> k')))"
  then show "D ! a ! b ! c = spec_table3 s1 s2 s3 a b c"
    by (intro lcs_filled_cell[OF inv] sub)
qed

lemma lcs_filled_step:
  assumes inv: "lcs_filled s1 s2 s3 i j k D"
    and i: "i < length s1" and j: "j < length s2" and k: "k < length s3"
  shows "\<exists>D'. lcs_cell D i j k s1 s2 s3 = Inr D' \<and> lcs_filled s1 s2 s3 i j (Suc k) D'"
proof -
  let ?T = "spec_table3 s1 s2 s3"
  from inv have sh: "cube_shape (length s1) (length s2) (length s3) D"
    by (simp add: lcs_filled_def)
  have c0: "D ! i ! j ! k = ?T i j k"
    using i j k by (intro lcs_filled_cell[OF inv]) simp_all
  have c1: "D ! Suc i ! Suc j ! k = ?T (Suc i) (Suc j) k"
    using i j k by (intro lcs_filled_cell[OF inv]) simp_all
  have c2: "D ! Suc i ! j ! Suc k = ?T (Suc i) j (Suc k)"
    using i j k by (intro lcs_filled_cell[OF inv]) simp_all
  have c3: "D ! i ! Suc j ! Suc k = ?T i (Suc j) (Suc k)"
    using i j k by (intro lcs_filled_cell[OF inv]) simp_all
  let ?D' = "D[Suc i := (D ! Suc i)[Suc j := (D ! Suc i ! Suc j)[Suc k := ?T (Suc i) (Suc j) (Suc k)]]]"
  have run: "lcs_cell D i j k s1 s2 s3 = Inr ?D'"
    by (simp only: lcs_cell_cube[OF sh i j k i j k] c0 c1 c2 c3 spec_table3.simps)
  have sh': "cube_shape (length s1) (length s2) (length s3) ?D'"
    using sh by (rule cube_shape_update)
  from i j k have le: "Suc i \<le> length s1" "Suc j \<le> length s2" "Suc k \<le> length s3"
    by simp_all
  note upd = cube_update_nth[OF sh le]
  have "?D' ! a ! b ! c = ?T a b c"
    if "a \<le> length s1" "b \<le> length s2" "c \<le> length s3"
      "b = 0 \<or> c = 0 \<or> a \<le> i \<or> (a = Suc i \<and> (b \<le> j \<or> (b = Suc j \<and> c \<le> Suc k)))" for a b c
  proof (cases "a = Suc i \<and> b = Suc j \<and> c = Suc k")
    case True
    then show ?thesis by (simp add: upd)
  next
    case False
    with that(4) have "b = 0 \<or> c = 0 \<or> a \<le> i \<or> (a = Suc i \<and> (b \<le> j \<or> (b = Suc j \<and> c \<le> k)))"
      by auto
    from lcs_filled_cell[OF inv that(1,2,3) this] False show ?thesis
      by (simp add: upd)
  qed
  with sh' have "lcs_filled s1 s2 s3 i j (Suc k) ?D'"
    unfolding lcs_filled_def by blast
  with run show ?thesis by blast
qed

lemma lcs_filled_row:
  assumes inv: "lcs_filled s1 s2 s3 i j 0 D" and i: "i < length s1" and j: "j < length s2"
  shows "\<exists>D'. for_loop [0..<length s3] (\<lambda>k D. lcs_cell D i j k s1 s2 s3) D = Inr D' \<and>
              lcs_filled s1 s2 s3 i (Suc j) 0 D'"
proof -
  have "\<exists>D'. for_loop [0..<length s3] (\<lambda>k D. lcs_cell D i j k s1 s2 s3) D = Inr D' \<and>
              lcs_filled s1 s2 s3 i j (length s3) D'"
    by (rule for_loop_range_invariant[where P = "lcs_filled s1 s2 s3 i j"])
       (use inv i j in \<open>simp_all add: lcs_filled_step\<close>)
  moreover have "lcs_filled s1 s2 s3 i (Suc j) 0 D'" if "lcs_filled s1 s2 s3 i j (length s3) D'" for D'
    using that by (rule lcs_filled_mono) auto
  ultimately show ?thesis by blast
qed

lemma lcs_filled_plane:
  assumes inv: "lcs_filled s1 s2 s3 i 0 0 D" and i: "i < length s1"
  shows "\<exists>D'. for_loop [0..<length s2]
                (\<lambda>j. for_loop [0..<length s3] (\<lambda>k D. lcs_cell D i j k s1 s2 s3)) D = Inr D' \<and>
              lcs_filled s1 s2 s3 (Suc i) 0 0 D'"
proof -
  have "\<exists>D'. for_loop [0..<length s2]
                (\<lambda>j. for_loop [0..<length s3] (\<lambda>k D. lcs_cell D i j k s1 s2 s3)) D = Inr D' \<and>
              lcs_filled s1 s2 s3 i (length s2) 0 D'"
    by (rule for_loop_range_invariant[where P = "\<lambda>j. lcs_filled s1 s2 s3 i j 0"])
       (use inv i in \<open>simp_all add: lcs_filled_row\<close>)
  moreover have "lcs_filled s1 s2 s3 (Suc i) 0 0 D'" if "lcs_filled s1 s2 s3 i (length s2) 0 D'" for D'
    using that by (rule lcs_filled_mono) auto
  ultimately show ?thesis by blast
qed

lemma longest_common_subsequence_table_cells:
  "\<exists>D. longest_common_subsequence_table s1 s2 s3 = Inr D \<and>
       cube_shape (length s1) (length s2) (length s3) D \<and>
       (\<forall>i \<le> length s1. \<forall>j \<le> length s2. \<forall>k \<le> length s3.
          D ! i ! j ! k = spec_table3 s1 s2 s3 i j k)"
proof -
  let ?D0 = "replicate (Suc (length s1)) (replicate (Suc (length s2))
               (replicate (Suc (length s3)) (0::int)))"
  have start: "lcs_filled s1 s2 s3 0 0 0 ?D0"
    unfolding lcs_filled_def
  proof (intro conjI allI impI)
    fix a b c
    assume "a \<le> length s1" "b \<le> length s2" "c \<le> length s3"
      "b = 0 \<or> c = 0 \<or> a \<le> 0 \<or> a = Suc 0 \<and> (b \<le> 0 \<or> b = Suc 0 \<and> c \<le> 0)"
    then show "?D0 ! a ! b ! c = spec_table3 s1 s2 s3 a b c"
      by (auto simp del: replicate.simps)
  qed (rule cube_shape_replicate)
  have "\<exists>D. for_loop [0..<length s1] (\<lambda>i. for_loop [0..<length s2]
                (\<lambda>j. for_loop [0..<length s3] (\<lambda>k D. lcs_cell D i j k s1 s2 s3))) ?D0 = Inr D \<and>
            lcs_filled s1 s2 s3 (length s1) 0 0 D"
    by (rule for_loop_range_invariant[where P = "\<lambda>i. lcs_filled s1 s2 s3 i 0 0"])
       (use start in \<open>simp_all add: lcs_filled_plane\<close>)
  then obtain D where D: "for_loop [0..<length s1] (\<lambda>i. for_loop [0..<length s2]
                (\<lambda>j. for_loop [0..<length s3] (\<lambda>k D. lcs_cell D i j k s1 s2 s3))) ?D0 = Inr D"
    "lcs_filled s1 s2 s3 (length s1) 0 0 D"
    by blast
  have "longest_common_subsequence_table s1 s2 s3 = Inr D"
    using D(1) by (simp add: longest_common_subsequence_table_def del: replicate.simps)
  with D(2) show ?thesis
    unfolding lcs_filled_def by auto
qed

lemma longest_common_subsequence_spec_table3:
  "longest_common_subsequence s1 s2 s3 =
   Inr (spec_table3 s1 s2 s3 (length s1) (length s2) (length s3))"
proof -
  obtain D where D: "longest_common_subsequence_table s1 s2 s3 = Inr D"
    "cube_shape (length s1) (length s2) (length s3) D"
    "\<forall>i \<le> length s1. \<forall>j \<le> length s2. \<forall>k \<le> length s3. D ! i ! j ! k = spec_table3 s1 s2 s3 i j k"
    using longest_common_subsequence_table_cells[of s1 s2 s3] by blast
  show ?thesis
    using D by (simp add: longest_common_subsequence_def getitem3_cube[OF D(2)])
qed

lemma spec_table_zero_left: "spec_table s1 s2 mu sigma 0 j = sigma * int j"
  by (cases j) simp_all

section \<open>Claims about the pairwise routine\<close>

text \<open>
  C2. For all sequences \<open>s1\<close>, \<open>s2\<close> and all integer penalties the pairwise routine
  builds a table of \<open>len(s1) + 1\<close> rows of \<open>len(s2) + 1\<close> cells whose first column is
  \<open>sigma * i\<close>, whose first row is \<open>sigma * j\<close> and whose other cells are the maximum of
  insertion, deletion and match-or-mismatch of their three neighbours; it returns the
  cell \<open>D[m][n]\<close>.
\<close>

theorem needleman_wunsch_table_recurrence:
  "\<exists>D. needleman_wunsch_table s1 s2 mu sigma = Inr D \<and>
       length D = length s1 + 1 \<and>
       (\<forall>i \<le> length s1. length (D ! i) = length s2 + 1) \<and>
       (\<forall>i \<le> length s1. D ! i ! 0 = sigma * int i) \<and>
       (\<forall>j \<le> length s2. D ! 0 ! j = sigma * int j) \<and>
       (\<forall>i < length s1. \<forall>j < length s2.
          D ! Suc i ! Suc j =
          max3 (D ! Suc i ! j + sigma) (D ! i ! Suc j + sigma)
               (if s1 ! i = s2 ! j then D ! i ! j + 1 else D ! i ! j + mu)) \<and>
       needleman_wunsch_algorithm s1 s2 mu sigma = Inr (D ! length s1 ! length s2)"
proof -
  obtain D where D: "needleman_wunsch_table s1 s2 mu sigma = Inr D"
    "table_shape (length s1) (length s2) D"
    "\<forall>i \<le> length s1. \<forall>j \<le> length s2. D ! i ! j = spec_table s1 s2 mu sigma i j"
    using needleman_wunsch_table_cells[of s1 s2 mu sigma] by blast
  have cell: "D ! i ! j = spec_table s1 s2 mu sigma i j" if "i \<le> length s1" "j \<le> length s2" for i j
    using D(3) that by blast
  have "length D = length s1 + 1" "\<forall>i \<le> length s1. length (D ! i) = length s2 + 1"
    using D(2) by (simp_all add: table_shape_def)
  moreover have "\<forall>i \<le> length s1. D ! i ! 0 = sigma * int i"
    by (simp add: cell)
  moreover have "\<forall>j \<le> length s2. D ! 0 ! j = sigma * int j"
    by (simp add: cell spec_table_zero_left)
  moreover have "\<forall>i < length s1. \<forall>j < length s2.
          D ! Suc i ! Suc j =
          max3 (D ! Suc i ! j + sigma) (D ! i ! Suc j + sigma)
               (if s1 ! i = s2 ! j then D ! i ! j + 1 else D ! i ! j + mu)"
    by (simp add: cell)
  moreover have "needleman_wunsch_algorithm s1 s2 mu sigma = Inr (D ! length s1 ! length s2)"
    by (simp add: needleman_wunsch_algorithm_spec_table cell)
  ultimately show ?thesis
    using D(1) by blast
qed

theorem needleman_wunsch_table_recurrence_witness:
  "\<exists>D. needleman_wunsch_table ''AC'' ''A'' (- 1) (- 2) = Inr D \<and>
       D ! 0 ! 0 = 0 \<and> D ! 1 ! 0 = - 2 \<and> D ! 2 ! 0 = - 4 \<and> D ! 0 ! 1 = - 2 \<and>
       D ! 1 ! 1 = 1 \<and> D ! 2 ! 1 = - 1 \<and>
       needleman_wunsch_algorithm ''AC'' ''A'' (- 1) (- 2) = Inr (- 1)"
proof -
  from needleman_wunsch_table_recurrence[of "''AC''" "''A''" "- 1" "- 2"]
  obtain D where run: "needleman_wunsch_table ''AC'' ''A'' (- 1) (- 2) = Inr D"
    and col: "\<forall>i \<le> 2. D ! i ! 0 = - 2 * int i"
    and row: "\<forall>j \<le> 1. D ! 0 ! j = - 2 * int j"
    and rec: "\<forall>i < 2. \<forall>j < 1. D ! Suc i ! Suc j =
          max3 (D ! Suc i ! j + - 2) (D ! i ! Suc j + - 2)
               (if ''AC'' ! i = ''A'' ! j then D ! i ! j + 1 else D ! i ! j + - 1)"
    and res: "needleman_wunsch_algorithm ''AC'' ''A'' (- 1) (- 2) = Inr (D ! 2 ! 1)"
    by (auto simp: numeral_2_eq_2)
  have c00: "D ! 0 ! 0 = 0" and c10: "D ! 1 ! 0 = - 2" and c20: "D ! 2 ! 0 = - 4"
    using col by auto
  have c01: "D ! 0 ! 1 = - 2"
    using row by auto
  have "D ! Suc 0 ! Suc 0 = max3 (D ! Suc 0 ! 0 + - 2) (D ! 0 ! Suc 0 + - 2)
               (if ''AC'' ! 0 = ''A'' ! 0 then D ! 0 ! 0 + 1 else D ! 0 ! 0 + - 1)"
    using rec by auto
  then have c11: "D ! 1 ! 1 = 1"
    using c00 c10 c01 by (simp add: max3_def)
  have "D ! Suc 1 ! Suc 0 = max3 (D ! Suc 1 ! 0 + - 2) (D ! 1 ! Suc 0 + - 2)
               (if ''AC'' ! 1 = ''A'' ! 0 then D ! 1 ! 0 + 1 else D ! 1 ! 0 + - 1)"
    using rec by auto
  then have c21: "D ! 2 ! 1 = - 1"
    using c10 c20 c11 by (simp add: max3_def numeral_2_eq_2)
  show ?thesis
    using run res c00 c10 c20 c01 c11 c21 by simp
qed

section \<open>Claims about the three-way routine\<close>

text \<open>
  C3. For all sequences \<open>s1\<close>, \<open>s2\<close>, \<open>s3\<close> the three-way routine builds a table of
  dimensions \<open>(m + 1) \<times> (n + 1) \<times> (p + 1)\<close> that is zero wherever an index is zero, and
  whose cell \<open>(i + 1, j + 1, k + 1)\<close> is the diagonal neighbour plus one when
  \<open>s1[i]\<close>, \<open>s2[j]\<close>, \<open>s3[k]\<close> are equal and the maximum of the three neighbours with
  one index decremented otherwise; it returns the cell \<open>D[m][n][p]\<close>.
\<close>

theorem longest_common_subsequence_table_recurrence:
  "\<exists>D. longest_common_subsequence_table s1 s2 s3 = Inr D \<and>
       length D = length s1 + 1 \<and>
       (\<forall>i \<le> length s1. length (D ! i) = length s2 + 1 \<and>
          (\<forall>j \<le> length s2. length (D ! i ! j) = length s3 + 1)) \<and>
       (\<forall>i \<le> length s1. \<forall>j \<le> length s2. \<forall>k \<le> length s3.
          i = 0 \<or> j = 0 \<or> k = 0 \<longrightarrow> D ! i ! j ! k = 0) \<and>
       (\<forall>i < length s1. \<forall>j < length s2. \<forall>k < length s3.
          D ! Suc i ! Suc j ! Suc k =
          (if s1 ! i = s2 ! j \<and> s2 ! j = s3 ! k then D ! i ! j ! k + 1
           else max3 (D ! Suc i ! Suc j ! k) (D ! Suc i ! j ! Suc k) (D ! i ! Suc j ! Suc k))) \<and>
       longest_common_subsequence s1 s2 s3 = Inr (D ! length s1 ! length s2 ! length s3)"
proof -
  obtain D where D: "longest_common_subsequence_table s1 s2 s3 = Inr D"
    "cube_shape (length s1) (length s2) (length s3) D"
    "\<forall>i \<le> length s1. \<forall>j \<le> length s2. \<forall>k \<le> length s3.
       D ! i ! j ! k = spec_table3 s1 s2 s3 i j k"
    using longest_common_subsequence_table_cells[of s1 s2 s3] by blast
  have cell: "D ! i ! j ! k = spec_table3 s1 s2 s3 i j k"
    if "i \<le> length s1" "j \<le> length s2" "k \<le> length s3" for i j k
    using D(3) that by blast
  have "length D = length s1 + 1"
    "\<forall>i \<le> length s1. length (D ! i) = length s2 + 1 \<and>
          (\<forall>j \<le> length s2. length (D ! i ! j) = length s3 + 1)"
    using D(2) by (simp_all add: cube_shape_def table_shape_def)
  moreover have "\<forall>i \<le> length s1. \<forall>j \<le> length s2. \<forall>k \<le> length s3.
          i = 0 \<or> j = 0 \<or> k = 0 \<longrightarrow> D ! i ! j ! k = 0"
    by (auto simp: cell)
  moreover have "\<forall>i < length s1. \<forall>j < length s2. \<forall>k < length s3.
          D ! Suc i ! Suc j ! Suc k =
          (if s1 ! i = s2 ! j \<and> s2 ! j = s3 ! k then D ! i ! j ! k + 1
           else max3 (D ! Suc i ! Suc j ! k) (D ! Suc i ! j ! Suc k) (D ! i ! Suc j ! Suc k))"
    by (simp add: cell)
  moreover have "longest_common_subsequence s1 s2 s3 = Inr (D ! length s1 ! length s2 ! length s3)"
    by (simp add: longest_common_subsequence_spec_table3 cell)
  ultimately show ?thesis
    using D(1) by blast
qed

theorem longest_common_subsequence_table_recurrence_witness:
  "\<exists>D. longest_common_subsequence_table ''AB'' ''B'' ''AB'' = Inr D \<and>
       D ! 1 ! 0 ! 1 = 0 \<and> D ! 2 ! 1 ! 2 = 1 \<and>
       longest_common_subsequence ''AB'' ''B'' ''AB'' = Inr 1"
proof -
  from longest_common_subsequence_table_recurrence[of "''AB''" "''B''" "''AB''"]
  obtain D where run: "longest_common_subsequence_table ''AB'' ''B'' ''AB'' = Inr D"
    and zero: "\<forall>i \<le> 2. \<forall>j \<le> 1. \<forall>k \<le> 2. i = 0 \<or> j = 0 \<or> k = 0 \<longrightarrow> D ! i ! j ! k = 0"
    and rec: "\<forall>i < 2. \<forall>j < 1. \<forall>k < 2. D ! Suc i ! Suc j ! Suc k =
          (if ''AB'' ! i = ''B'' ! j \<and> ''B'' ! j = ''AB'' ! k then D ! i ! j ! k + 1
           else max3 (D ! Suc i ! Suc j ! k) (D ! Suc i ! j ! Suc k) (D ! i ! Suc j ! Suc k))"
    and res: "longest_common_subsequence ''AB'' ''B'' ''AB'' = Inr (D ! 2 ! 1 ! 2)"
    by (auto simp: numeral_2_eq_2)
  have c101: "D ! 1 ! 0 ! 1 = 0"
    using zero[rule_format, of 1 0 1] by simp
  have "D ! Suc 1 ! Suc 0 ! Suc 1 =
          (if ''AB'' ! 1 = ''B'' ! 0 \<and> ''B'' ! 0 = ''AB'' ! 1 then D ! 1 ! 0 ! 1 + 1
           else max3 (D ! Suc 1 ! Suc 0 ! 1) (D ! Suc 1 ! 0 ! Suc 1) (D ! 1 ! Suc 0 ! Suc 1))"
    using rec by auto
  then have c212: "D ! 2 ! 1 ! 2 = 1"
    using c101 by (simp add: numeral_2_eq_2)
  show ?thesis
    using run res c101 c212 by simp
qed

text \<open>
  The recurrence is invariant under exchanging two of the sequences together with their
  indices; every permutation of the three arguments is a product of such exchanges.
\<close>

lemma max3_swap: "max3 a b c = max3 a c b" "max3 a b c = max3 b a c"
  by (simp_all add: max3_def)

lemma spec_table3_swap12:
  "spec_table3 s1 s2 s3 i j k = spec_table3 s2 s1 s3 j i k"
proof (induction s1 s2 s3 i j k rule: spec_table3.induct)
  case (4 s1 s2 s3 i j k)
  then show ?case
    by (auto simp: max3_def)
qed simp_all

lemma spec_table3_swap23:
  "spec_table3 s1 s2 s3 i j k = spec_table3 s1 s3 s2 i k j"
proof (induction s1 s2 s3 i j k rule: spec_table3.induct)
  case (4 s1 s2 s3 i j k)
  then show ?case
    by (auto simp: max3_def)
qed simp_all

text \<open>
  C4. The result of the three-way routine is the same for every ordering of its three
  arguments.
\<close>

theorem longest_common_subsequence_symmetric:
  "longest_common_subsequence s1 s2 s3 = longest_common_subsequence s1 s3 s2 \<and>
   longest_common_subsequence s1 s2 s3 = longest_common_subsequence s2 s1 s3 \<and>
   longest_common_subsequence s1 s2 s3 = longest_common_subsequence s2 s3 s1 \<and>
   longest_common_subsequence s1 s2 s3 = longest_common_subsequence s3 s1 s2 \<and>
   longest_common_subsequence s1 s2 s3 = longest_common_subsequence s3 s2 s1"
proof -
  let ?m = "length s1" and ?n = "length s2" and ?p = "length s3"
  have a: "spec_table3 s1 s2 s3 ?m ?n ?p = spec_table3 s1 s3 s2 ?m ?p ?n"
    by (rule spec_table3_swap23)
  have b: "spec_table3 s1 s2 s3 ?m ?n ?p = spec_table3 s2 s1 s3 ?n ?m ?p"
    by (rule spec_table3_swap12)
  have c: "spec_table3 s1 s2 s3 ?m ?n ?p = spec_table3 s2 s3 s1 ?n ?p ?m"
    using b spec_table3_swap23[of s2 s1 s3 ?n ?m ?p] by simp
  have d: "spec_table3 s1 s2 s3 ?m ?n ?p = spec_table3 s3 s1 s2 ?p ?m ?n"
    using a spec_table3_swap12[of s1 s3 s2 ?m ?p ?n] by simp
  have e: "spec_table3 s1 s2 s3 ?m ?n ?p = spec_table3 s3 s2 s1 ?p ?n ?m"
    using c spec_table3_swap12[of s2 s3 s1 ?n ?p ?m] by simp
  note run = longest_common_subsequence_spec_table3
  have "longest_common_subsequence s1 s2 s3 = longest_common_subsequence s1 s3 s2"
    by (simp only: run a)
  moreover have "longest_common_subsequence s1 s2 s3 = longest_common_subsequence s2 s1 s3"
    by (simp only: run b)
  moreover have "longest_common_subsequence s1 s2 s3 = longest_common_subsequence s2 s3 s1"
    by (simp only: run c)
  moreover have "longest_common_subsequence s1 s2 s3 = longest_common_subsequence s3 s1 s2"
    by (simp only: run d)
  moreover have "longest_common_subsequence s1 s2 s3 = longest_common_subsequence s3 s2 s1"
    by (simp only: run e)
  ultimately show ?thesis
    by blast
qed

section \<open>Boundary behaviour, totality and the worked examples\<close>

text \<open>
  C5. With one empty input the pairwise routine returns the gap penalty times the length
  of the other input, hence \<open>0\<close> under zero penalties; the three-way routine returns \<open>0\<close>
  whenever one of its inputs is empty.
\<close>

theorem empty_input_boundary:
  "needleman_wunsch_algorithm [] s mu sigma = Inr (sigma * int (length s)) \<and>
   needleman_wunsch_algorithm s [] mu sigma = Inr (sigma * int (length s)) \<and>
   needleman_wunsch_algorithm [] s 0 0 = Inr 0 \<and>
   needleman_wunsch_algorithm s [] 0 0 = Inr 0 \<and>
   longest_common_subsequence [] s2 s3 = Inr 0 \<and>
   longest_common_subsequence s1 [] s3 = Inr 0 \<and>
   longest_common_subsequence s1 s2 [] = Inr 0"
  by (simp add: needleman_wunsch_algorithm_spec_table longest_common_subsequence_spec_table3
      spec_table_zero_left)

text \<open>
  C8. Both routines return a value on all inputs: no subscript of the tables or of the
  sequences raises, and every loop is a bounded \<open>for\<close> loop over a range, modelled by
  structural recursion over the list of its indices.
\<close>

theorem alignment_routines_total:
  "(\<exists>v. needleman_wunsch_algorithm s1 s2 mu sigma = Inr v) \<and>
   (\<exists>v. longest_common_subsequence t1 t2 t3 = Inr v)"
  by (simp add: needleman_wunsch_algorithm_spec_table longest_common_subsequence_spec_table3)

text \<open>
  C6. The worked examples: the pairwise routine with zero penalties gives \<open>2\<close> on
  \<open>ACTG\<close> and \<open>AG\<close>, the three-way routine gives \<open>4\<close> on three copies of \<open>AAAA\<close>.
\<close>

theorem worked_examples:
  "needleman_wunsch_algorithm ''ACTG'' ''AG'' 0 0 = Inr 2 \<and>
   longest_common_subsequence ''AAAA'' ''AAAA'' ''AAAA'' = Inr 4"
  by code_simp

section \<open>Majority elements: the naive and the Boyer-Moore routine\<close>

lemma count_list_two_le: "x \<noteq> y \<Longrightarrow> count_list a x + count_list a y \<le> length a"
  by (induction a) auto

lemma majority_unique:
  "is_majority_element x a \<Longrightarrow> is_majority_element y a \<Longrightarrow> x = y"
proof (rule ccontr)
  assume x: "is_majority_element x a" and y: "is_majority_element y a" and "x \<noteq> y"
  then have "count_list a x + count_list a y \<le> length a"
    by (simp add: count_list_two_le)
  with x y show False
    unfolding is_majority_element_def by linarith
qed

lemma majority_in_set: "is_majority_element x a \<Longrightarrow> x \<in> set a"
  unfolding is_majority_element_def
  by (metis count_list_0_iff not_less_zero)

lemma naive_loop_none:
  "\<forall>e \<in> set es. \<not> is_majority_element e a \<Longrightarrow> naive_loop es a = - 1"
  by (induction es) simp_all

lemma naive_loop_found:
  "x \<in> set es \<Longrightarrow> is_majority_element x a \<Longrightarrow> naive_loop es a = x"
  by (induction es) (auto dest: majority_unique)

lemma naive_algorithm_majority:
  "is_majority_element x a \<Longrightarrow> naive_algorithm a = x"
  by (simp add: naive_algorithm_def naive_loop_found majority_in_set)

lemma naive_algorithm_none:
  "\<forall>x. \<not> is_majority_element x a \<Longrightarrow> naive_algorithm a = - 1"
  by (simp add: naive_algorithm_def naive_loop_none)

text \<open>
  The vote of the candidate loop, seen from a fixed value \<open>x\<close>: the count when \<open>x\<close> is
  the candidate, one minus the count otherwise. An occurrence of \<open>x\<close> raises it by one,
  any other element lowers it by at most one.
\<close>

lemma candidate_loop_majority:
  "1 \<le> count \<Longrightarrow>
   1 \<le> (if candidate = x then count else 1 - count) + 2 * int (count_list es x) - int (length es) \<Longrightarrow>
   candidate_loop es candidate count = x"
proof (induction es arbitrary: candidate count)
  case Nil
  then show ?case
    by (simp split: if_splits)
next
  case (Cons e es)
  show ?case
  proof (cases "(if candidate = e then count + 1 else count - 1) = 0")
    case True
    then have "candidate_loop (e # es) candidate count = candidate_loop es e 1"
      by simp
    also have "\<dots> = x"
      using Cons.prems True by (intro Cons.IH) (auto split: if_splits)
    finally show ?thesis .
  next
    case False
    let ?c = "if candidate = e then count + 1 else count - 1"
    from False have "candidate_loop (e # es) candidate count = candidate_loop es candidate ?c"
      by (simp add: Let_def)
    also have "\<dots> = x"
      using Cons.prems False by (intro Cons.IH) (auto split: if_splits)
    finally show ?thesis .
  qed
qed

lemma candidate_majority_element_nonempty:
  "a \<noteq> [] \<Longrightarrow> candidate_majority_element a = Inr (candidate_loop a (a ! 0) 1)"
  using getitem_nat[of 0 a] by (simp add: candidate_majority_element_def)

lemma candidate_majority_element_majority:
  assumes "is_majority_element x a"
  shows "candidate_majority_element a = Inr x"
proof -
  from assms have ne: "a \<noteq> []"
    by (auto simp: is_majority_element_def)
  from assms have "2 * int (count_list a x) - int (length a) \<ge> 1"
    unfolding is_majority_element_def by linarith
  then have "candidate_loop a (a ! 0) 1 = x"
    by (intro candidate_loop_majority) auto
  with ne show ?thesis
    by (simp add: candidate_majority_element_nonempty)
qed

lemma boyer_moore_algorithm_majority:
  "is_majority_element x a \<Longrightarrow> boyer_moore_algorithm a = Inr x"
  by (auto simp: boyer_moore_algorithm_def candidate_majority_element_majority
      is_majority_element_def)

lemma boyer_moore_algorithm_none:
  "\<forall>x. \<not> is_majority_element x a \<Longrightarrow> boyer_moore_algorithm a = Inr (- 1)"
  by (cases "a = []") (simp_all add: boyer_moore_algorithm_def candidate_majority_element_nonempty)

lemma boyer_moore_algorithm_returns:
  "\<exists>v. boyer_moore_algorithm a = Inr v"
  by (cases "a = []") (simp_all add: boyer_moore_algorithm_def candidate_majority_element_nonempty)

text \<open>
  C7. On a list with no majority element both \<open>naive_algorithm\<close> and
  \<open>boyer_moore_algorithm\<close> return the sentinel \<open>-1\<close>; they return \<open>-1\<close> only then, or
  when \<open>-1\<close> is itself the majority element, in which case both return it and the
  sentinel cannot be told from the data value.
\<close>

theorem majority_sentinel:
  "((\<forall>x. \<not> is_majority_element x a) \<longrightarrow>
      naive_algorithm a = - 1 \<and> boyer_moore_algorithm a = Inr (- 1)) \<and>
   (naive_algorithm a = - 1 \<longrightarrow>
      (\<forall>x. \<not> is_majority_element x a) \<or> is_majority_element (- 1) a) \<and>
   (boyer_moore_algorithm a = Inr (- 1) \<longrightarrow>
      (\<forall>x. \<not> is_majority_element x a) \<or> is_majority_element (- 1) a) \<and>
   (is_majority_element (- 1) a \<longrightarrow>
      naive_algorithm a = - 1 \<and> boyer_moore_algorithm a = Inr (- 1))"
proof (intro conjI impI)
  assume "naive_algorithm a = - 1"
  then show "(\<forall>x. \<not> is_majority_element x a) \<or> is_majority_element (- 1) a"
    using naive_algorithm_majority by fastforce
next
  assume "boyer_moore_algorithm a = Inr (- 1)"
  then show "(\<forall>x. \<not> is_majority_element x a) \<or> is_majority_element (- 1) a"
    using boyer_moore_algorithm_majority by fastforce
qed (simp_all add: naive_algorithm_none boyer_moore_algorithm_none
    naive_algorithm_majority boyer_moore_algorithm_majority)

theorem majority_sentinel_witness:
  "(\<forall>x. \<not> is_majority_element x [1, 2]) \<and>
   naive_algorithm [1, 2] = - 1 \<and> boyer_moore_algorithm [1, 2] = Inr (- 1) \<and>
   is_majority_element (- 1) [- 1, 3, - 1] \<and>
   naive_algorithm [- 1, 3, - 1] = - 1 \<and> boyer_moore_algorithm [- 1, 3, - 1] = Inr (- 1)"
proof -
  have none: "\<forall>x. \<not> is_majority_element x [1, 2]"
    by (simp add: is_majority_element_def)
  have minus: "is_majority_element (- 1) [- 1, 3, - 1]"
    by (simp add: is_majority_element_def)
  from majority_sentinel[of "[1, 2]"] none
  have "naive_algorithm [1, 2] = - 1 \<and> boyer_moore_algorithm [1, 2] = Inr (- 1)"
    by blast
  moreover from majority_sentinel[of "[- 1, 3, - 1]"] minus
  have "naive_algorithm [- 1, 3, - 1] = - 1 \<and> boyer_moore_algorithm [- 1, 3, - 1] = Inr (- 1)"
    by blast
  ultimately show ?thesis
    using none minus by blast
qed

text \<open>
  C10. \<open>_candidate_majority_element\<close> raises IndexError on the empty list and on no
  other list, and \<open>boyer_moore_algorithm\<close> guards the call with the length test: it
  returns \<open>-1\<close> on the empty list, returns a value on every list, and returns the
  majority element of every non-empty list that has one.
\<close>

theorem boyer_moore_algorithm_total_correct:
  "candidate_majority_element [] = Inl IndexError \<and>
   boyer_moore_algorithm [] = Inr (- 1) \<and>
   (a \<noteq> [] \<longrightarrow> (\<exists>c. candidate_majority_element a = Inr c)) \<and>
   (\<exists>v. boyer_moore_algorithm a = Inr v) \<and>
   (a \<noteq> [] \<and> is_majority_element x a \<longrightarrow> boyer_moore_algorithm a = Inr x)"
proof -
  have "candidate_majority_element [] = Inl IndexError"
    by (simp add: candidate_majority_element_def getitem_def py_index_def)
  moreover have "boyer_moore_algorithm [] = Inr (- 1)"
    by (simp add: boyer_moore_algorithm_def)
  ultimately show ?thesis
    by (simp add: boyer_moore_algorithm_returns boyer_moore_algorithm_majority
        candidate_majority_element_nonempty)
qed

theorem boyer_moore_algorithm_total_correct_witness:
  "[2, 2, 1, 1, 1] \<noteq> [] \<and> is_majority_element 1 [2, 2, 1, 1, 1] \<and>
   (\<exists>c. candidate_majority_element [2, 2, 1, 1, 1] = Inr c) \<and>
   boyer_moore_algorithm [2, 2, 1, 1, 1] = Inr 1"
proof -
  have maj: "is_majority_element 1 [2, 2, 1, 1, 1]"
    by (simp add: is_majority_element_def)
  with boyer_moore_algorithm_total_correct[of "[2, 2, 1, 1, 1]" 1] show ?thesis
    by simp
qed

section \<open>The divide-and-conquer routine\<close>

text \<open>
  C9. \<open>divide_and_conquer_algorithm\<close> calls the unbound name \<open>_get_majority_element\<close>:
  on every list it raises NameError instead of returning what \<open>naive_algorithm\<close>
  returns, for instance on the empty list.
\<close>

theorem divide_and_conquer_algorithm_raises:
  "divide_and_conquer_algorithm a = Inl (NameError ''_get_majority_element'') \<and>
   divide_and_conquer_algorithm [] \<noteq> Inr (naive_algorithm [])"
  by (simp add: divide_and_conquer_algorithm_def get_majority_element_def)

section \<open>Zero penalties: the length of a longest common subsequence\<close>

text \<open>
  The reference definition enumerates exactly the common subsequences, so its value is
  an upper bound on their lengths that one of them attains.
\<close>

lemma set_common_subsequences:
  "set (common_subsequences s1 s2) = {w. subseq w s1 \<and> subseq w s2}"
  by (auto simp: common_subsequences_def)

lemma spec_lcs_length_Max:
  "spec_lcs_length s1 s2 = Max (length ` {w. subseq w s1 \<and> subseq w s2})"
  by (simp add: spec_lcs_length_def set_common_subsequences)

lemma spec_lcs_length_upper:
  assumes "subseq w s1" and "subseq w s2"
  shows "length w \<le> spec_lcs_length s1 s2"
proof -
  have "length w \<in> set (map length (common_subsequences s1 s2))"
    using assms by (simp add: set_common_subsequences)
  then show ?thesis
    unfolding spec_lcs_length_def by (intro Max_ge) simp_all
qed

lemma spec_lcs_length_attained:
  "\<exists>w. subseq w s1 \<and> subseq w s2 \<and> length w = spec_lcs_length s1 s2"
proof -
  have "[] \<in> set (common_subsequences s1 s2)"
    by (simp add: set_common_subsequences)
  then have "set (map length (common_subsequences s1 s2)) \<noteq> {}"
    by auto
  then have "spec_lcs_length s1 s2 \<in> set (map length (common_subsequences s1 s2))"
    unfolding spec_lcs_length_def by (intro Max_in) simp_all
  then show ?thesis
    by (auto simp: set_common_subsequences)
qed

lemma spec_lcs_length_least:
  assumes "\<And>w. subseq w s1 \<Longrightarrow> subseq w s2 \<Longrightarrow> length w \<le> k"
  shows "spec_lcs_length s1 s2 \<le> k"
proof -
  obtain w where "subseq w s1" "subseq w s2" "length w = spec_lcs_length s1 s2"
    using spec_lcs_length_attained[of s1 s2] by blast
  with assms[of w] show ?thesis
    by simp
qed

lemma spec_lcs_length_Nil [simp]:
  "spec_lcs_length [] ys = 0" "spec_lcs_length xs [] = 0"
proof -
  have "spec_lcs_length [] ys \<le> 0"
    by (rule spec_lcs_length_least) simp
  then show "spec_lcs_length [] ys = 0"
    by simp
  have "spec_lcs_length xs [] \<le> 0"
    by (rule spec_lcs_length_least) simp
  then show "spec_lcs_length xs [] = 0"
    by simp
qed

text \<open>
  A subsequence of \<open>ys @ [y]\<close> either avoids the last element or ends with it. This gives
  the recurrence of the reference value on prefixes extended by one symbol.
\<close>

lemma subseq_snoc_cases:
  assumes "subseq w (ys @ [y])"
  shows "subseq w ys \<or> (\<exists>w'. w = w' @ [y] \<and> subseq w' ys)"
proof -
  from assms obtain w1 w2 where w: "w = w1 @ w2" "subseq w1 ys" "subseq w2 [y]"
    by (auto simp: subseq_append_iff)
  from w(3) have "w2 = [] \<or> w2 = [y]"
    by (cases w2) (auto split: if_splits)
  with w(1,2) show ?thesis
    by auto
qed

lemma subseq_snoc_other:
  "subseq (w @ [c]) (ys @ [y]) \<Longrightarrow> c \<noteq> y \<Longrightarrow> subseq (w @ [c]) ys"
  by (auto dest: subseq_snoc_cases)

lemma spec_lcs_length_snoc_left: "spec_lcs_length xs ys \<le> spec_lcs_length (xs @ [x]) ys"
  by (intro spec_lcs_length_least spec_lcs_length_upper subseq_rev_drop_many)

lemma spec_lcs_length_snoc_right: "spec_lcs_length xs ys \<le> spec_lcs_length xs (ys @ [y])"
  by (intro spec_lcs_length_least spec_lcs_length_upper subseq_rev_drop_many)

lemma spec_lcs_length_snoc_same:
  "spec_lcs_length (xs @ [x]) (ys @ [x]) = Suc (spec_lcs_length xs ys)"
proof (rule antisym)
  show "spec_lcs_length (xs @ [x]) (ys @ [x]) \<le> Suc (spec_lcs_length xs ys)"
  proof (rule spec_lcs_length_least)
    fix w
    assume w: "subseq w (xs @ [x])" "subseq w (ys @ [x])"
    show "length w \<le> Suc (spec_lcs_length xs ys)"
    proof (cases w rule: rev_cases)
      case Nil
      then show ?thesis by simp
    next
      case (snoc w' c)
      show ?thesis
      proof (cases "c = x")
        case True
        with w snoc have "subseq w' xs" "subseq w' ys"
          by simp_all
        then have "length w' \<le> spec_lcs_length xs ys"
          by (rule spec_lcs_length_upper)
        with snoc show ?thesis by simp
      next
        case False
        with w snoc have "subseq w xs" "subseq w ys"
          by (auto dest: subseq_snoc_other)
        then have "length w \<le> spec_lcs_length xs ys"
          by (rule spec_lcs_length_upper)
        then show ?thesis by simp
      qed
    qed
  qed
next
  obtain w where w: "subseq w xs" "subseq w ys" "length w = spec_lcs_length xs ys"
    using spec_lcs_length_attained[of xs ys] by blast
  then have "length (w @ [x]) \<le> spec_lcs_length (xs @ [x]) (ys @ [x])"
    by (intro spec_lcs_length_upper) simp_all
  with w(3) show "Suc (spec_lcs_length xs ys) \<le> spec_lcs_length (xs @ [x]) (ys @ [x])"
    by simp
qed

lemma spec_lcs_length_snoc_differ:
  assumes "x \<noteq> y"
  shows "spec_lcs_length (xs @ [x]) (ys @ [y]) =
         max (spec_lcs_length (xs @ [x]) ys) (spec_lcs_length xs (ys @ [y]))"
proof (rule antisym)
  show "spec_lcs_length (xs @ [x]) (ys @ [y]) \<le>
        max (spec_lcs_length (xs @ [x]) ys) (spec_lcs_length xs (ys @ [y]))"
  proof (rule spec_lcs_length_least)
    fix w
    assume w: "subseq w (xs @ [x])" "subseq w (ys @ [y])"
    show "length w \<le> max (spec_lcs_length (xs @ [x]) ys) (spec_lcs_length xs (ys @ [y]))"
    proof (cases w rule: rev_cases)
      case Nil
      then show ?thesis by simp
    next
      case (snoc w' c)
      show ?thesis
      proof (cases "c = x")
        case True
        with assms w(2) snoc have "subseq w ys"
          by (auto dest: subseq_snoc_other)
        with w(1) have "length w \<le> spec_lcs_length (xs @ [x]) ys"
          by (rule spec_lcs_length_upper)
        then show ?thesis by simp
      next
        case False
        with w(1) snoc have "subseq w xs"
          by (auto dest: subseq_snoc_other)
        then have "length w \<le> spec_lcs_length xs (ys @ [y])"
          using w(2) by (rule spec_lcs_length_upper)
        then show ?thesis by simp
      qed
    qed
  qed
next
  show "max (spec_lcs_length (xs @ [x]) ys) (spec_lcs_length xs (ys @ [y])) \<le>
        spec_lcs_length (xs @ [x]) (ys @ [y])"
    by (simp add: spec_lcs_length_snoc_left spec_lcs_length_snoc_right)
qed

text \<open>
  With both penalties zero the specification's table holds, at \<open>(i, j)\<close>, the reference
  value of the prefixes of lengths \<open>i\<close> and \<open>j\<close>.
\<close>

lemma spec_table_zero_penalties_prefix:
  "mu = 0 \<Longrightarrow> sigma = 0 \<Longrightarrow> i \<le> length s1 \<Longrightarrow> j \<le> length s2 \<Longrightarrow>
   spec_table s1 s2 mu sigma i j = int (spec_lcs_length (take i s1) (take j s2))"
proof (induction s1 s2 mu sigma i j rule: spec_table.induct)
  case (3 s1 s2 mu sigma i j)
  note zero = \<open>mu = 0\<close> \<open>sigma = 0\<close>
  let ?xs = "take i s1" and ?ys = "take j s2"
  from "3.prems" have i: "i < length s1" and j: "j < length s2"
    by simp_all
  have t1: "take (Suc i) s1 = ?xs @ [s1 ! i]" and t2: "take (Suc j) s2 = ?ys @ [s2 ! j]"
    using i j by (simp_all add: take_Suc_conv_app_nth)
  have ins: "spec_table s1 s2 mu sigma (Suc i) j = int (spec_lcs_length (?xs @ [s1 ! i]) ?ys)"
    using "3.IH"(1) "3.prems" by (simp add: t1)
  have del: "spec_table s1 s2 mu sigma i (Suc j) = int (spec_lcs_length ?xs (?ys @ [s2 ! j]))"
    using "3.IH"(2) "3.prems" by (simp add: t2)
  have dia: "spec_table s1 s2 mu sigma i j = int (spec_lcs_length ?xs ?ys)"
    using "3.IH"(3,4) "3.prems" by (cases "s1 ! i = s2 ! j") simp_all
  show ?case
  proof (cases "s1 ! i = s2 ! j")
    case True
    have "spec_lcs_length (?xs @ [s1 ! i]) ?ys \<le> Suc (spec_lcs_length ?xs ?ys)"
      using spec_lcs_length_snoc_right[of "?xs @ [s1 ! i]" ?ys "s1 ! i"]
      by (simp add: spec_lcs_length_snoc_same)
    moreover have "spec_lcs_length ?xs (?ys @ [s2 ! j]) \<le> Suc (spec_lcs_length ?xs ?ys)"
      using spec_lcs_length_snoc_left[of ?xs "?ys @ [s2 ! j]" "s2 ! j"]
      by (simp add: spec_lcs_length_snoc_same)
    ultimately show ?thesis
      unfolding spec_table.simps ins del dia t1 t2
      using True zero by (simp add: spec_lcs_length_snoc_same max3_def)
  next
    case False
    have "spec_lcs_length ?xs ?ys \<le> spec_lcs_length (?xs @ [s1 ! i]) ?ys"
      by (rule spec_lcs_length_snoc_left)
    then show ?thesis
      unfolding spec_table.simps ins del dia t1 t2
      using False zero by (simp add: spec_lcs_length_snoc_differ max3_def)
  qed
qed simp_all

text \<open>
  C1. For all sequences \<open>s1\<close>, \<open>s2\<close> the pairwise routine with mismatch penalty \<open>0\<close> and
  gap penalty \<open>0\<close> returns the length of a longest common subsequence of \<open>s1\<close> and \<open>s2\<close>,
  as given by the reference definition.
\<close>

theorem needleman_wunsch_zero_penalties_lcs:
  "needleman_wunsch_algorithm s1 s2 0 0 = Inr (int (spec_lcs_length s1 s2))"
  by (simp add: needleman_wunsch_algorithm_spec_table spec_table_zero_penalties_prefix)

end
